theory Spec2Isabelle
  imports Main
begin

section \<open>The tank simulator (Slave.py)\<close>

subsection \<open>Python values and list indexing\<close>

datatype py_error = IndexError

text \<open>\<open>xs[i]\<close> for a non-negative \<open>i\<close>: raises IndexError out of range.\<close>

definition py_index :: "'a list \<Rightarrow> nat \<Rightarrow> py_error + 'a" where
  "py_index xs i = (if i < length xs then Inr (xs ! i) else Inl IndexError)"

text \<open>\<open>bool(x)\<close> of an integer.\<close>

definition py_bool :: "int \<Rightarrow> bool" where
  "py_bool x = (x \<noteq> 0)"

text \<open>A Python bool stored among integers: \<open>True\<close> is 1 and \<open>False\<close> is 0.\<close>

definition int_of_bool :: "bool \<Rightarrow> int" where
  "int_of_bool b = (if b then 1 else 0)"

subsection \<open>The register store\<close>

text \<open>
  The data store is the library's slave context over two sequential data blocks: the
  coils \<open>co\<close> and the holding registers \<open>hr\<close>. The context adds 1 to every address
  before it reaches a block, for the simulator's calls and for the requests of a client
  alike, so the first value of a block that starts at address 0 is never read or written.
  The store is modelled as it is addressed: \<open>co\<close> and \<open>hr\<close> hold the values at
  addresses 0, 1, 2 and so on. \<open>getValues\<close> returns the slice
  \<open>values[address : address + count]\<close> of the block selected by the function code
  (1: coils, 3: holding registers) and \<open>setValues\<close> assigns the slice
  \<open>values[address : address + len(vs)] = vs\<close>.
\<close>

record store =
  co :: "int list"
  hr :: "int list"

text \<open>
  The blocks are built from \<open>[0] * 20\<close> and \<open>[500] + [0] * 19\<close> at block address 0.
  With the shift of the context, the 19 values after the first are the ones at addresses
  0 to 18: every coil and every register first reads 0, the level in register 0 too, and
  the 500 sits in the place no address reaches.
\<close>

definition store_init :: store where
  "store_init = \<lparr>co = tl (replicate 20 0), hr = tl (500 # replicate 19 0)\<rparr>"

definition py_slice :: "'a list \<Rightarrow> nat \<Rightarrow> nat \<Rightarrow> 'a list" where
  "py_slice xs address count = take count (drop address xs)"

definition py_slice_assign :: "'a list \<Rightarrow> nat \<Rightarrow> 'a list \<Rightarrow> 'a list" where
  "py_slice_assign xs address vs = take address xs @ vs @ drop (address + length vs) xs"

definition getValues :: "store \<Rightarrow> nat \<Rightarrow> nat \<Rightarrow> nat \<Rightarrow> int list" where
  "getValues st fx address count =
     (if fx = 1 then py_slice (co st) address count
      else if fx = 3 then py_slice (hr st) address count
      else [])"

definition setValues :: "store \<Rightarrow> nat \<Rightarrow> nat \<Rightarrow> int list \<Rightarrow> store" where
  "setValues st fx address vs =
     (if fx = 1 then st\<lparr>co := py_slice_assign (co st) address vs\<rparr>
      else if fx = 3 then st\<lparr>hr := py_slice_assign (hr st) address vs\<rparr>
      else st)"

subsection \<open>Simulation parameters\<close>

definition MAX_LEVEL :: int where "MAX_LEVEL = 1000"
definition MIN_LEVEL :: int where "MIN_LEVEL = 0"
definition PUMP_RATE :: int where "PUMP_RATE = 5"
definition DRAIN_RATE :: int where "DRAIN_RATE = 3"

subsection \<open>One pass of the simulation loop\<close>

text \<open>The lines the simulator logs: the state line of every pass and the threshold events.\<close>

datatype tank_log =
    StateLine bool bool int
  | TankEmpty
  | TankHalfFull int
  | TankFull int

text \<open>
  The simulator owns \<open>last_report\<close> (\<open>None\<close>, \<open>'empty'\<close>, \<open>'half'\<close> or \<open>'full'\<close>);
  the store is shared with the server.
\<close>

record tank =
  tank_store :: store
  last_report :: "string option"

definition tank_init :: tank where
  "tank_init = \<lparr>tank_store = store_init, last_report = None\<rparr>"

text \<open>The \<open>if\<close>/\<open>elif\<close> chain on the new level: the new \<open>last_report\<close> and the lines logged.\<close>

definition threshold_events :: "string option \<Rightarrow> int \<Rightarrow> string option \<times> tank_log list" where
  "threshold_events lr new_level =
     (if new_level = MIN_LEVEL \<and> lr \<noteq> Some ''empty'' then (Some ''empty'', [TankEmpty])
      else if new_level = MAX_LEVEL div 2 \<and> lr \<noteq> Some ''half''
        then (Some ''half'', [TankHalfFull new_level])
      else if new_level = MAX_LEVEL \<and> lr \<noteq> Some ''full''
        then (Some ''full'', [TankFull new_level])
      else if MIN_LEVEL < new_level \<and> new_level < MAX_LEVEL then (None, [])
      else (lr, []))"

text \<open>
  The body of \<open>while True\<close> in \<open>simulate_tank\<close>, up to the sleep: the new simulator
  state and the lines logged, or the exception an index out of range raises.
\<close>

definition simulate_tick :: "tank \<Rightarrow> py_error + (tank \<times> tank_log list)" where
  "simulate_tick t =
     (let coils = getValues (tank_store t) 1 0 2 in
      case py_index coils 0 of Inl e \<Rightarrow> Inl e | Inr c0 \<Rightarrow>
      case py_index coils 1 of Inl e \<Rightarrow> Inl e | Inr c1 \<Rightarrow>
      case py_index (getValues (tank_store t) 3 0 1) 0 of Inl e \<Rightarrow> Inl e | Inr level \<Rightarrow>
        let pump_on = py_bool c0;
            valve_open = py_bool c1;
            delta = (if pump_on then PUMP_RATE else 0) - (if valve_open then DRAIN_RATE else 0);
            new_level = max MIN_LEVEL (min MAX_LEVEL (level + delta));
            st = setValues (tank_store t) 3 0 [new_level];
            (lr, events) = threshold_events (last_report t) new_level
        in Inr (\<lparr>tank_store = st, last_report = lr\<rparr>,
                StateLine pump_on valve_open new_level # events))"

subsection \<open>The simulator beside the server\<close>

text \<open>
  The simulation loop never returns, and the server thread writes coils into the same
  store on behalf of the controller. A run is a finite sequence of events: a pass of the
  simulation loop, or a coil write served for a client. A write to an address outside the
  block is refused by the server and leaves the store as it is. The simulator reads the
  coils once, at the start of a pass, so a write served during a pass has the effect of
  one served just after it.
\<close>

datatype event = Tick | CoilWrite nat bool

definition serve_coil_write :: "tank \<Rightarrow> nat \<Rightarrow> bool \<Rightarrow> tank" where
  "serve_coil_write t address v =
     (if address < length (co (tank_store t))
      then t\<lparr>tank_store := setValues (tank_store t) 1 address [int_of_bool v]\<rparr>
      else t)"

fun run_events :: "tank \<Rightarrow> event list \<Rightarrow> py_error + (tank \<times> tank_log list)" where
  "run_events t [] = Inr (t, [])"
| "run_events t (Tick # evs) =
     (case simulate_tick t of
        Inl e \<Rightarrow> Inl e
      | Inr (t1, logs1) \<Rightarrow>
          (case run_events t1 evs of
             Inl e \<Rightarrow> Inl e
           | Inr (t2, logs2) \<Rightarrow> Inr (t2, logs1 @ logs2)))"
| "run_events t (CoilWrite address v # evs) = run_events (serve_coil_write t address v) evs"

text \<open>The level the store holds in register 0.\<close>

definition level_of :: "tank \<Rightarrow> py_error + int" where
  "level_of t = py_index (getValues (tank_store t) 3 0 1) 0"

section \<open>The controller (Master.py)\<close>

subsection \<open>What the controller receives and what it does\<close>

text \<open>
  A reply of the client to a read request: nothing (a value that is false for \<open>not\<close>),
  a reply whose \<open>isError()\<close> holds, or a reply carrying the values read.
\<close>

datatype 'a response = NoResponse | ErrorResponse | Response 'a

text \<open>
  The raw socket when the test packet is sent: no socket, \<open>send\<close> raises, the packet
  is sent and the flush of the pending reply raises something other than
  \<open>BlockingIOError\<close>, or the packet is sent and the flush ends.
\<close>

datatype probe = NoSocket | SendRaises | FlushRaises | Flushed

datatype master_log =
    ExitReceived
  | AutoControlSet bool
  | PumpOverrideSet bool
  | ValveOverrideSet bool
  | ForceFill
  | ForceDrain
  | SendingTestPacket
  | TestPacketSent
  | TestPacketFailed
  | NoSocketConnection
  | ReadError
  | InvalidCoilResponse
  | ActivationActivated
  | ActivationDeactivated
  | PumpSetTo bool
  | ValveSetTo bool
  | StateLog int bool bool

text \<open>
  What one pass of the loop does to the outside: lines logged, coils written, raw bytes
  sent. The loop does not look at the reply to a coil write, so a write is an effect only.
\<close>

datatype effect = Log master_log | WriteCoil nat bool | SendRaw "nat list"

text \<open>The module's control flags, overrides and the activation latch.\<close>

record control =
  auto_control :: bool
  pump_override :: "bool option"
  valve_override :: "bool option"
  exit_flag :: bool
  skip_next_poll :: bool
  activation_a_active :: bool
  activation_a_timer :: int

definition control_init :: control where
  "control_init =
     \<lparr>auto_control = True, pump_override = None, valve_override = None, exit_flag = False,
      skip_next_poll = False, activation_a_active = False, activation_a_timer = 0\<rparr>"

text \<open>What the environment supplies to one pass: the key pressed, if any, the state of the
  raw socket, and the replies to the two read requests.\<close>

record loop_input =
  in_key :: "char option"
  in_probe :: probe
  in_rr :: "int list response"
  in_rc :: "bool list response"

text \<open>How a pass of the loop ends: the loop goes on, \<open>break\<close>, or an uncaught exception.\<close>

datatype outcome = Continue | Break | Raised py_error

subsection \<open>Keyboard commands\<close>

text \<open>\<open>str.lower()\<close> on one character.\<close>

definition lower :: "char \<Rightarrow> char" where
  "lower c =
     (let n = (of_char c :: nat) in if 65 \<le> n \<and> n \<le> 90 then char_of (n + 32) else c)"

definition raw_packet :: "nat list" where
  "raw_packet = [0, 0, 0, 0, 0, 6, 1, 3, 0, 0, 0, 1]"

text \<open>The \<open>if\<close>/\<open>elif\<close> chain on the character read, already in lower case.\<close>

definition handle_key :: "control \<Rightarrow> char \<Rightarrow> probe \<Rightarrow> control \<times> effect list" where
  "handle_key s ch pr =
     (if ch = CHR ''q'' then (s\<lparr>exit_flag := True\<rparr>, [Log ExitReceived])
      else if ch = CHR ''a'' then
        (let a = \<not> auto_control s in
         (s\<lparr>auto_control := a, pump_override := (if a then None else pump_override s)\<rparr>,
          [Log (AutoControlSet a)]))
      else if ch = CHR ''p'' then
        (let po = (case pump_override s of Some b \<Rightarrow> \<not> b | None \<Rightarrow> True) in
         (s\<lparr>auto_control := False, pump_override := Some po\<rparr>, [Log (PumpOverrideSet po)]))
      else if ch = CHR ''v'' then
        (let vo = (case valve_override s of Some b \<Rightarrow> \<not> b | None \<Rightarrow> True) in
         (s\<lparr>valve_override := Some vo\<rparr>, [Log (ValveOverrideSet vo)]))
      else if ch = CHR ''f'' then
        (s\<lparr>auto_control := False, pump_override := Some True, valve_override := Some False\<rparr>,
         [Log ForceFill])
      else if ch = CHR ''d'' then
        (s\<lparr>auto_control := False, pump_override := Some False, valve_override := Some True\<rparr>,
         [Log ForceDrain])
      else if ch = CHR ''t'' then
        (case pr of
           NoSocket \<Rightarrow> (s, [Log SendingTestPacket, Log NoSocketConnection])
         | SendRaises \<Rightarrow> (s, [Log SendingTestPacket, Log TestPacketFailed])
         | FlushRaises \<Rightarrow>
             (s, [Log SendingTestPacket, SendRaw raw_packet, Log TestPacketSent,
                  Log TestPacketFailed])
         | Flushed \<Rightarrow>
             (s\<lparr>skip_next_poll := True\<rparr>,
              [Log SendingTestPacket, SendRaw raw_packet, Log TestPacketSent]))
      else (s, []))"

subsection \<open>The poll\<close>

text \<open>The activation latch: the two \<open>if\<close> statements that follow the sensor reads.\<close>

definition activation_a :: "control \<Rightarrow> int \<Rightarrow> control \<times> effect list" where
  "activation_a s level =
     (let (s1, e1) =
            (if \<not> activation_a_active s \<and> 500 \<le> level \<and> level \<le> 520
             then (s\<lparr>activation_a_active := True, activation_a_timer := 5\<rparr>,
                   [Log ActivationActivated])
             else (s, []));
          (s2, e2) =
            (if activation_a_active s1
             then (let s' = s1\<lparr>activation_a_timer := activation_a_timer s1 - 1\<rparr> in
                   if activation_a_timer s' \<le> 0
                   then (s'\<lparr>activation_a_active := False\<rparr>, [Log ActivationDeactivated])
                   else (s', []))
             else (s1, []))
      in (s2, e1 @ e2))"

text \<open>The pump decision.\<close>

definition target_pump :: "control \<Rightarrow> int \<Rightarrow> bool \<Rightarrow> bool" where
  "target_pump s level pump_state =
     (case pump_override s of
        Some b \<Rightarrow> b
      | None \<Rightarrow>
          if auto_control s
          then (if level < 300 then True else if level > 700 then False else pump_state)
          else pump_state)"

text \<open>
  From the two read replies to the sleep that ends the pass. The first register is read
  outside the \<open>try\<close>, so an empty register list raises; a coil reply with fewer than two
  bits is caught and breaks the loop.
\<close>

definition poll_tick ::
  "control \<Rightarrow> int list response \<Rightarrow> bool list response
     \<Rightarrow> control \<times> effect list \<times> outcome" where
  "poll_tick s rr rc =
     (case rr of
        Response registers \<Rightarrow>
          (case rc of
             Response bits \<Rightarrow>
               (case py_index registers 0 of
                  Inl e \<Rightarrow> (s, [], Raised e)
                | Inr level \<Rightarrow>
                    (case py_index bits 0 of
                       Inl e \<Rightarrow> (s, [Log InvalidCoilResponse], Break)
                     | Inr pump_state \<Rightarrow>
                         (case py_index bits 1 of
                            Inl e \<Rightarrow> (s, [Log InvalidCoilResponse], Break)
                          | Inr valve_state \<Rightarrow>
                              (let (s1, e1) = activation_a s level;
                                   target = target_pump s1 level pump_state;
                                   e2 = (if target \<noteq> pump_state
                                         then [WriteCoil 0 target, Log (PumpSetTo target)]
                                         else []);
                                   e3 = (case valve_override s1 of
                                           Some v \<Rightarrow>
                                             if v \<noteq> valve_state
                                             then [WriteCoil 1 v, Log (ValveSetTo v)]
                                             else []
                                         | None \<Rightarrow> [])
                               in (s1, e1 @ e2 @ e3 @ [Log (StateLog level target valve_state)],
                                   Continue)))))
           | _ \<Rightarrow> (s, [Log ReadError], Break))
      | _ \<Rightarrow> (s, [Log ReadError], Break))"

subsection \<open>The control loop\<close>

text \<open>One pass of \<open>while not exit_flag\<close>: the key, the skipped poll after a test packet,
  the poll.\<close>

definition loop_iteration :: "control \<Rightarrow> loop_input \<Rightarrow> control \<times> effect list \<times> outcome" where
  "loop_iteration s inp =
     (let (s1, e1) = (case in_key inp of
                        None \<Rightarrow> (s, [])
                      | Some ch \<Rightarrow> handle_key s (lower ch) (in_probe inp))
      in if skip_next_poll s1 then (s1\<lparr>skip_next_poll := False\<rparr>, e1, Continue)
         else (let (s2, e2, oc) = poll_tick s1 (in_rr inp) (in_rc inp)
               in (s2, e1 @ e2, oc)))"

text \<open>
  The loop over the inputs of its passes. It is left when \<open>exit_flag\<close> is set at the top
  of a pass, by \<open>break\<close> or by an exception; \<open>Running\<close> says the inputs given so far
  left it running. A keyboard interrupt, which can arrive at any point of a pass, is
  outside the model.
\<close>

datatype loop_status = Running | Finished | Broken | Crashed py_error

fun run_loop :: "control \<Rightarrow> loop_input list \<Rightarrow> control \<times> effect list \<times> loop_status" where
  "run_loop s [] = (s, [], if exit_flag s then Finished else Running)"
| "run_loop s (inp # inps) =
     (if exit_flag s then (s, [], Finished)
      else (case loop_iteration s inp of
              (s1, e1, Continue) \<Rightarrow>
                (case run_loop s1 inps of (s2, e2, st) \<Rightarrow> (s2, e1 @ e2, st))
            | (s1, e1, Break) \<Rightarrow> (s1, e1, Broken)
            | (s1, e1, Raised e) \<Rightarrow> (s1, e1, Crashed e)))"

text \<open>The coil writes among the effects, in order.\<close>

fun coil_writes :: "effect list \<Rightarrow> (nat \<times> bool) list" where
  "coil_writes [] = []"
| "coil_writes (WriteCoil a v # es) = (a, v) # coil_writes es"
| "coil_writes (_ # es) = coil_writes es"

section \<open>Notions used to state the properties\<close>

text \<open>The level a pass of the simulator computes from the two coil values and the level
  read, with the simulation parameters written out.\<close>

definition clamped_level :: "int \<Rightarrow> int \<Rightarrow> int \<Rightarrow> int" where
  "clamped_level c0 c1 level =
     max 0 (min 1000 (level + ((if c0 \<noteq> 0 then 5 else 0) - (if c1 \<noteq> 0 then 3 else 0))))"

text \<open>The store has the two coils and the level register the simulator reads, and the
  level is within the tank.\<close>

definition tank_ok :: "tank \<Rightarrow> bool" where
  "tank_ok t =
     (case co (tank_store t) of
        c0 # c1 # cs \<Rightarrow>
          (case hr (tank_store t) of l # rs \<Rightarrow> 0 \<le> l \<and> l \<le> 1000 | [] \<Rightarrow> False)
      | _ \<Rightarrow> False)"

text \<open>
  The input of a pass of the control loop that polls and goes on: the key pressed, if any,
  is neither \<open>q\<close> nor \<open>t\<close>, the register reply carries a level and the coil reply
  at least two bits.
\<close>

definition polls :: "loop_input \<Rightarrow> bool" where
  "polls inp =
     ((case in_key inp of
         None \<Rightarrow> True
       | Some ch \<Rightarrow> lower ch \<noteq> CHR ''q'' \<and> lower ch \<noteq> CHR ''t'')
      \<and> (case in_rr inp of Response (l # rs) \<Rightarrow> True | _ \<Rightarrow> False)
      \<and> (case in_rc inp of Response (p # v # bs) \<Rightarrow> True | _ \<Rightarrow> False))"

text \<open>The input of a pass with no key pressed whose reads answer with the level and the
  states of the pump and the valve; the coil bits come as a whole byte.\<close>

definition quiet_poll :: "int \<Rightarrow> bool \<Rightarrow> bool \<Rightarrow> loop_input" where
  "quiet_poll level pump_state valve_state =
     \<lparr>in_key = None, in_probe = NoSocket, in_rr = Response [level],
      in_rc = Response [pump_state, valve_state, False, False, False, False, False, False]\<rparr>"

text \<open>The latch is active exactly when its timer is positive.\<close>

definition latch_inv :: "control \<Rightarrow> bool" where
  "latch_inv s = (activation_a_active s = (0 < activation_a_timer s))"

section \<open>Properties of the simulator\<close>

lemma simulate_tick_eq:
  assumes "co (tank_store t) = c0 # c1 # cs" and "hr (tank_store t) = level # rs"
  shows "simulate_tick t =
           Inr (\<lparr>tank_store = \<lparr>co = c0 # c1 # cs, hr = clamped_level c0 c1 level # rs\<rparr>,
                 last_report = fst (threshold_events (last_report t) (clamped_level c0 c1 level))\<rparr>,
                StateLine (c0 \<noteq> 0) (c1 \<noteq> 0) (clamped_level c0 c1 level)
                  # snd (threshold_events (last_report t) (clamped_level c0 c1 level)))"
  using assms
  by (simp add: simulate_tick_def getValues_def setValues_def py_slice_def py_slice_assign_def
      py_index_def py_bool_def clamped_level_def MAX_LEVEL_def MIN_LEVEL_def PUMP_RATE_def
      DRAIN_RATE_def Let_def split: prod.split)

lemma clamped_level_range:
  "0 \<le> clamped_level c0 c1 level \<and> clamped_level c0 c1 level \<le> 1000"
  by (simp add: clamped_level_def)

lemma tank_okE:
  assumes "tank_ok t"
  obtains c0 c1 cs l rs where "co (tank_store t) = c0 # c1 # cs" "hr (tank_store t) = l # rs"
    "0 \<le> l" "l \<le> 1000"
  using assms by (auto simp: tank_ok_def split: list.splits)

lemma tank_ok_tick:
  assumes "tank_ok t"
  shows "\<exists>t' logs. simulate_tick t = Inr (t', logs) \<and> tank_ok t'"
proof -
  from assms obtain c0 c1 cs l rs
    where c: "co (tank_store t) = c0 # c1 # cs" and h: "hr (tank_store t) = l # rs"
    by (rule tank_okE)
  show ?thesis
    using clamped_level_range [of c0 c1 l]
    by (simp add: simulate_tick_eq [OF c h] tank_ok_def)
qed

lemma tank_ok_write: "tank_ok t \<Longrightarrow> tank_ok (serve_coil_write t a v)"
  by (cases a; cases "a - 1")
     (auto simp: tank_ok_def serve_coil_write_def setValues_def py_slice_assign_def
        split: list.splits)

lemma tank_ok_init: "tank_ok tank_init"
  by code_simp

lemma tank_ok_run:
  "tank_ok t \<Longrightarrow> \<exists>t' logs. run_events t evs = Inr (t', logs) \<and> tank_ok t'"
proof (induction evs arbitrary: t)
  case Nil
  then show ?case by simp
next
  case (Cons ev evs)
  show ?case
  proof (cases ev)
    case Tick
    from tank_ok_tick [OF Cons.prems] obtain t1 logs1
      where t1: "simulate_tick t = Inr (t1, logs1)" and ok1: "tank_ok t1" by blast
    from Cons.IH [OF ok1] obtain t2 logs2
      where "run_events t1 evs = Inr (t2, logs2)" and "tank_ok t2" by blast
    with t1 Tick show ?thesis by simp
  next
    case (CoilWrite a v)
    with Cons.IH [OF tank_ok_write [OF Cons.prems, of a v]] show ?thesis by simp
  qed
qed

lemma tank_ok_level: "tank_ok t \<Longrightarrow> \<exists>l. level_of t = Inr l \<and> 0 \<le> l \<and> l \<le> 1000"
  by (auto simp: tank_ok_def level_of_def getValues_def py_slice_def py_index_def
      split: list.splits)

text \<open>
  C1. A pass of the simulator that finds coils 0 and 1 and register 0 in the store leaves
  the coils as they are and writes to register 0 the level read plus
  \<open>(5 if pump_on else 0) - (3 if valve_open else 0)\<close>, clamped to \<open>[0, 1000]\<close>. And
  after any sequence of simulator passes and served coil writes from the initial store,
  however the pump and the valve are driven, the run has raised nothing and the level in
  register 0 is within \<open>[0, 1000]\<close>.
\<close>

theorem C1_level_update_clamped:
  "(co (tank_store t) = c0 # c1 # cs \<and> hr (tank_store t) = level # rs \<longrightarrow>
      (\<exists>t' logs. simulate_tick t = Inr (t', logs) \<and>
         co (tank_store t') = c0 # c1 # cs \<and>
         hr (tank_store t') =
           max 0 (min 1000
             (level + ((if py_bool c0 then 5 else 0) - (if py_bool c1 then 3 else 0)))) # rs))
   \<and> (\<exists>t' logs l. run_events tank_init evs = Inr (t', logs) \<and> level_of t' = Inr l
          \<and> 0 \<le> l \<and> l \<le> 1000)"
proof (intro conjI impI)
  assume "co (tank_store t) = c0 # c1 # cs \<and> hr (tank_store t) = level # rs"
  then show "\<exists>t' logs. simulate_tick t = Inr (t', logs) \<and>
         co (tank_store t') = c0 # c1 # cs \<and>
         hr (tank_store t') =
           max 0 (min 1000
             (level + ((if py_bool c0 then 5 else 0) - (if py_bool c1 then 3 else 0)))) # rs"
    by (simp add: simulate_tick_eq clamped_level_def py_bool_def)
next
  from tank_ok_run [OF tank_ok_init, of evs] obtain t' logs
    where r: "run_events tank_init evs = Inr (t', logs)" and ok: "tank_ok t'" by blast
  from tank_ok_level [OF ok] r
  show "\<exists>t' logs l. run_events tank_init evs = Inr (t', logs) \<and> level_of t' = Inr l
          \<and> 0 \<le> l \<and> l \<le> 1000"
    by blast
qed

text \<open>The pump running at level 998 with the valve closed: the pass stores 1000, not 1003.\<close>

theorem C1_level_update_clamped_witness:
  "\<exists>t' logs.
      simulate_tick \<lparr>tank_store = \<lparr>co = [1, 0], hr = [998]\<rparr>, last_report = None\<rparr>
        = Inr (t', logs)
      \<and> co (tank_store t') = [1, 0] \<and> hr (tank_store t') = [1000]"
  using C1_level_update_clamped
    [of "\<lparr>tank_store = \<lparr>co = [1, 0], hr = [998]\<rparr>, last_report = None\<rparr>" 1 0 "[]" 998 "[]" "[]"]
  by (simp add: py_bool_def)

text \<open>
  C3. The report at the half level is not emitted once per entry. From the initial store,
  the pump and the valve are switched on and 250 passes raise the level from 0 to 500; the
  250th pass reports "Tank Half Full" and sets \<open>last_report = 'half'\<close>. Both coils are
  then switched off, so the level stays at 500. From that state the next pass finds
  \<open>last_report = 'half'\<close>, falls through to the last branch of the chain
  (\<open>0 < 500 < 1000\<close>) and resets \<open>last_report\<close>, and the pass after it reports
  "Tank Half Full" again and is back in the same state: the report recurs on every second
  pass while the level never leaves 500.
\<close>

theorem C3_half_full_reported_again:
  "run_events tank_init
     (CoilWrite 0 True # CoilWrite 1 True # replicate 250 Tick
        @ [CoilWrite 0 False, CoilWrite 1 False])
     = Inr (\<lparr>tank_store = \<lparr>co = replicate 19 0, hr = 500 # replicate 18 0\<rparr>,
             last_report = Some ''half''\<rparr>,
            map (\<lambda>k. StateLine True True (2 * int k)) [1..<251] @ [TankHalfFull 500])
   \<and> run_events
       \<lparr>tank_store = \<lparr>co = replicate 19 0, hr = 500 # replicate 18 0\<rparr>,
         last_report = Some ''half''\<rparr>
       [Tick, Tick]
     = Inr (\<lparr>tank_store = \<lparr>co = replicate 19 0, hr = 500 # replicate 18 0\<rparr>,
             last_report = Some ''half''\<rparr>,
            [StateLine False False 500,
             StateLine False False 500, TankHalfFull 500])"
  by code_simp

lemma simulate_tick_short:
  "length (co (tank_store t)) < 2 \<or> hr (tank_store t) = [] \<Longrightarrow> simulate_tick t = Inl IndexError"
  by (cases "co (tank_store t)"; cases "tl (co (tank_store t))")
     (auto simp: simulate_tick_def getValues_def py_slice_def py_index_def Let_def
        split: sum.splits)

lemma simulate_tick_InrD:
  assumes "simulate_tick t = Inr (t', logs)"
  obtains c0 c1 cs l rs where "co (tank_store t) = c0 # c1 # cs" "hr (tank_store t) = l # rs"
proof -
  from assms simulate_tick_short [of t]
  have "\<not> length (co (tank_store t)) < 2" and "hr (tank_store t) \<noteq> []" by auto
  then show thesis
    using that
    by (cases "co (tank_store t)"; cases "tl (co (tank_store t))"; cases "hr (tank_store t)")
       auto
qed

lemma level_of_Cons: "hr (tank_store t) = l # rs \<Longrightarrow> level_of t = Inr l"
  by (simp add: level_of_def getValues_def py_slice_def py_index_def)

lemma threshold_events_not_threshold:
  "0 < n \<Longrightarrow> n < 1000 \<Longrightarrow> n \<noteq> 500 \<Longrightarrow> threshold_events lr n = (None, [])"
  by (simp add: threshold_events_def MIN_LEVEL_def MAX_LEVEL_def)

lemma threshold_events_logs:
  "set (snd (threshold_events lr n)) \<subseteq>
     (if n = 0 then {TankEmpty} else if n = 500 then {TankHalfFull 500}
      else if n = 1000 then {TankFull 1000} else {})"
  by (simp add: threshold_events_def MIN_LEVEL_def MAX_LEVEL_def)

lemma clamped_level_crossing:
  "(level < 500 \<and> 500 < clamped_level c0 c1 level) \<or> (clamped_level c0 c1 level < 500 \<and> 500 < level)
   \<Longrightarrow> 0 < clamped_level c0 c1 level \<and> clamped_level c0 c1 level < 1000
       \<and> clamped_level c0 c1 level \<noteq> 500"
  by (auto simp: clamped_level_def split: if_splits)

lemma drain_run:
  assumes "co (tank_store t) = 0 # c1 # cs" "c1 \<noteq> 0" "hr (tank_store t) = l # rs"
    "0 \<le> l" "l \<le> 1000"
  shows "\<exists>t' logs. run_events t (replicate n Tick) = Inr (t', logs)
           \<and> hr (tank_store t') = max 0 (l - 3 * int n) # rs"
  using assms
proof (induction n arbitrary: t l)
  case 0
  then show ?case by simp
next
  case (Suc n)
  let ?l1 = "clamped_level 0 c1 l"
  let ?t1 = "\<lparr>tank_store = \<lparr>co = 0 # c1 # cs, hr = ?l1 # rs\<rparr>,
                last_report = fst (threshold_events (last_report t) ?l1)\<rparr>"
  have l1: "?l1 = max 0 (l - 3)" using Suc.prems by (simp add: clamped_level_def)
  have tick: "simulate_tick t = Inr (?t1, StateLine (0 \<noteq> (0::int)) (c1 \<noteq> 0) ?l1
                  # snd (threshold_events (last_report t) ?l1))"
    using simulate_tick_eq [OF Suc.prems(1) Suc.prems(3)] .
  have "\<exists>t' logs. run_events ?t1 (replicate n Tick) = Inr (t', logs)
           \<and> hr (tank_store t') = max 0 (?l1 - 3 * int n) # rs"
    using Suc.prems by (intro Suc.IH) (simp_all add: l1)
  then obtain t' logs where r: "run_events ?t1 (replicate n Tick) = Inr (t', logs)"
    and h: "hr (tank_store t') = max 0 (?l1 - 3 * int n) # rs" by blast
  have "max 0 (?l1 - 3 * int n) = max 0 (l - 3 * int (Suc n))" by (simp add: l1)
  with tick r h show ?case by simp
qed

lemma fill_run:
  assumes "co (tank_store t) = c0 # 0 # cs" "c0 \<noteq> 0" "hr (tank_store t) = l # rs"
    "0 \<le> l" "l \<le> 1000"
  shows "\<exists>t' logs. run_events t (replicate n Tick) = Inr (t', logs)
           \<and> hr (tank_store t') = min 1000 (l + 5 * int n) # rs"
  using assms
proof (induction n arbitrary: t l)
  case 0
  then show ?case by simp
next
  case (Suc n)
  let ?l1 = "clamped_level c0 0 l"
  let ?t1 = "\<lparr>tank_store = \<lparr>co = c0 # 0 # cs, hr = ?l1 # rs\<rparr>,
                last_report = fst (threshold_events (last_report t) ?l1)\<rparr>"
  have l1: "?l1 = min 1000 (l + 5)" using Suc.prems by (simp add: clamped_level_def)
  have tick: "simulate_tick t = Inr (?t1, StateLine (c0 \<noteq> 0) (0 \<noteq> (0::int)) ?l1
                  # snd (threshold_events (last_report t) ?l1))"
    using simulate_tick_eq [OF Suc.prems(1) Suc.prems(3)] .
  have "\<exists>t' logs. run_events ?t1 (replicate n Tick) = Inr (t', logs)
           \<and> hr (tank_store t') = min 1000 (?l1 + 5 * int n) # rs"
    using Suc.prems by (intro Suc.IH) (simp_all add: l1)
  then obtain t' logs where r: "run_events ?t1 (replicate n Tick) = Inr (t', logs)"
    and h: "hr (tank_store t') = min 1000 (?l1 + 5 * int n) # rs" by blast
  have "min 1000 (?l1 + 5 * int n) = min 1000 (l + 5 * int (Suc n))" by (simp add: l1)
  with tick r h show ?case by simp
qed

lemma threshold_reports_exact:
  assumes "simulate_tick t = Inr (t', logs)"
    and "level_of t = Inr level" and "level_of t' = Inr new_level"
  shows "((level < 500 \<and> 500 < new_level) \<or> (new_level < 500 \<and> 500 < level) \<longrightarrow>
            (\<forall>x. TankHalfFull x \<notin> set logs) \<and> last_report t' = None)
       \<and> (new_level \<noteq> 0 \<and> new_level \<noteq> 500 \<and> new_level \<noteq> 1000 \<longrightarrow>
            logs = [StateLine (py_bool (co (tank_store t) ! 0)) (py_bool (co (tank_store t) ! 1)) new_level]
            \<and> last_report t' = None)
       \<and> ((\<exists>x. TankHalfFull x \<in> set logs) \<longrightarrow> new_level = 500)
       \<and> (TankEmpty \<in> set logs \<longrightarrow> new_level = 0)
       \<and> ((\<exists>x. TankFull x \<in> set logs) \<longrightarrow> new_level = 1000)"
proof -
  from assms(1) obtain c0 c1 cs l rs
    where c: "co (tank_store t) = c0 # c1 # cs" and h: "hr (tank_store t) = l # rs"
    by (rule simulate_tick_InrD)
  let ?n = "clamped_level c0 c1 l"
  from assms(1) simulate_tick_eq [OF c h]
  have t': "t' = \<lparr>tank_store = \<lparr>co = c0 # c1 # cs, hr = ?n # rs\<rparr>,
                 last_report = fst (threshold_events (last_report t) ?n)\<rparr>"
    and logs: "logs = StateLine (c0 \<noteq> 0) (c1 \<noteq> 0) ?n # snd (threshold_events (last_report t) ?n)"
    by simp_all
  from assms(2) h have level: "level = l" by (simp add: level_of_Cons)
  from assms(3) t' have new: "new_level = ?n" by (simp add: level_of_Cons)
  have range: "0 \<le> ?n \<and> ?n \<le> 1000" by (rule clamped_level_range)
  have sub: "set (snd (threshold_events (last_report t) ?n)) \<subseteq>
     (if ?n = 0 then {TankEmpty} else if ?n = 500 then {TankHalfFull 500}
      else if ?n = 1000 then {TankFull 1000} else {})"
    by (rule threshold_events_logs)
  have plain: "threshold_events (last_report t) ?n = (None, [])"
    if "?n \<noteq> 0" "?n \<noteq> 500" "?n \<noteq> 1000"
    using that range by (intro threshold_events_not_threshold) auto
  have cross: "?n \<noteq> 0 \<and> ?n \<noteq> 500 \<and> ?n \<noteq> 1000"
    if "(level < 500 \<and> 500 < new_level) \<or> (new_level < 500 \<and> 500 < level)"
    using clamped_level_crossing [of l c0 c1] that level new by auto
  have 1: "(level < 500 \<and> 500 < new_level) \<or> (new_level < 500 \<and> 500 < level) \<longrightarrow>
            (\<forall>x. TankHalfFull x \<notin> set logs) \<and> last_report t' = None"
    using cross plain by (auto simp: logs t')
  have 2: "new_level \<noteq> 0 \<and> new_level \<noteq> 500 \<and> new_level \<noteq> 1000 \<longrightarrow>
            logs = [StateLine (py_bool (co (tank_store t) ! 0)) (py_bool (co (tank_store t) ! 1)) new_level]
            \<and> last_report t' = None"
    using plain by (auto simp: logs t' new c py_bool_def)
  have 3: "(\<exists>x. TankHalfFull x \<in> set logs) \<longrightarrow> new_level = 500"
    using sub by (auto simp: logs new split: if_splits)
  have 4: "TankEmpty \<in> set logs \<longrightarrow> new_level = 0"
    using sub by (auto simp: logs new split: if_splits)
  have 5: "(\<exists>x. TankFull x \<in> set logs) \<longrightarrow> new_level = 1000"
    using sub by (auto simp: logs new split: if_splits)
  from 1 2 3 4 5 show ?thesis by blast
qed


lemma drain_reaches_empty:
  assumes "co (tank_store t) = 0 # c1 # cs" "c1 \<noteq> 0" "hr (tank_store t) = l # rs"
    "0 \<le> l" "l \<le> 1000"
  shows "\<exists>n t' logs. run_events t (replicate n Tick) = Inr (t', logs) \<and> level_of t' = Inr 0"
proof -
  from drain_run [OF assms, of "nat l"] obtain t' logs
    where "run_events t (replicate (nat l) Tick) = Inr (t', logs)"
      and "hr (tank_store t') = max 0 (l - 3 * int (nat l)) # rs" by blast
  moreover have "max 0 (l - 3 * int (nat l)) = 0" using assms(4) by simp
  ultimately show ?thesis using level_of_Cons by metis
qed

lemma fill_reaches_full:
  assumes "co (tank_store t) = c0 # 0 # cs" "c0 \<noteq> 0" "hr (tank_store t) = l # rs"
    "0 \<le> l" "l \<le> 1000"
  shows "\<exists>n t' logs. run_events t (replicate n Tick) = Inr (t', logs) \<and> level_of t' = Inr 1000"
proof -
  from fill_run [OF assms, of "nat (1000 - l)"] obtain t' logs
    where "run_events t (replicate (nat (1000 - l)) Tick) = Inr (t', logs)"
      and "hr (tank_store t') = min 1000 (l + 5 * int (nat (1000 - l))) # rs" by blast
  moreover have "min 1000 (l + 5 * int (nat (1000 - l))) = 1000" using assms(4,5) by simp
  ultimately show ?thesis using level_of_Cons by metis
qed


text \<open>
  C10. Threshold detection is by equality with the new level. On a successful pass whose
  new level lies on the other side of 500 from the level read, no "Tank Half Full" line is
  logged and \<open>last_report\<close> becomes \<open>None\<close>; more generally a new level other than
  0, 500 and 1000 logs the state line only and resets \<open>last_report\<close>. A "Tank Half
  Full" line is logged only at new level 500, "Tank Empty" only at 0 and "Tank Full" only
  at 1000. The clamp makes both ends reachable exactly: from any level in \<open>[0, 1000]\<close>,
  passes with only the valve open reach level 0 and passes with only the pump on reach
  level 1000.
\<close>

theorem C10_thresholds_need_equality:
  "(simulate_tick t = Inr (t', logs) \<and> level_of t = Inr level \<and> level_of t' = Inr new_level
      \<longrightarrow>
        ((level < 500 \<and> 500 < new_level) \<or> (new_level < 500 \<and> 500 < level) \<longrightarrow>
            (\<forall>x. TankHalfFull x \<notin> set logs) \<and> last_report t' = None)
        \<and> (new_level \<noteq> 0 \<and> new_level \<noteq> 500 \<and> new_level \<noteq> 1000 \<longrightarrow>
            logs = [StateLine (py_bool (co (tank_store t) ! 0))
                      (py_bool (co (tank_store t) ! 1)) new_level]
            \<and> last_report t' = None)
        \<and> ((\<exists>x. TankHalfFull x \<in> set logs) \<longrightarrow> new_level = 500)
        \<and> (TankEmpty \<in> set logs \<longrightarrow> new_level = 0)
        \<and> ((\<exists>x. TankFull x \<in> set logs) \<longrightarrow> new_level = 1000))
   \<and> (co (tank_store t) = 0 # c1 # cs \<and> c1 \<noteq> 0 \<and> hr (tank_store t) = l # rs
        \<and> 0 \<le> l \<and> l \<le> 1000 \<longrightarrow>
        (\<exists>n t'' logs''. run_events t (replicate n Tick) = Inr (t'', logs'')
            \<and> level_of t'' = Inr 0))
   \<and> (co (tank_store t) = c0 # 0 # cs \<and> c0 \<noteq> 0 \<and> hr (tank_store t) = l # rs
        \<and> 0 \<le> l \<and> l \<le> 1000 \<longrightarrow>
        (\<exists>n t'' logs''. run_events t (replicate n Tick) = Inr (t'', logs'')
            \<and> level_of t'' = Inr 1000))"
  using threshold_reports_exact [of t t' logs level new_level]
    drain_reaches_empty [of t c1 cs l rs] fill_reaches_full [of t c0 cs l rs]
  by blast

text \<open>Pump on and valve open at level 499: the pass stores 501 and logs no threshold.\<close>

theorem C10_thresholds_need_equality_witness:
  "simulate_tick \<lparr>tank_store = \<lparr>co = [1, 1], hr = [499]\<rparr>, last_report = Some ''half''\<rparr>
     = Inr (\<lparr>tank_store = \<lparr>co = [1, 1], hr = [501]\<rparr>, last_report = None\<rparr>,
            [StateLine True True 501])
   \<and> (\<forall>x. TankHalfFull x \<notin> set [StateLine True True 501])"
  using C10_thresholds_need_equality
    [of "\<lparr>tank_store = \<lparr>co = [1, 1], hr = [499]\<rparr>, last_report = Some ''half''\<rparr>"
        "\<lparr>tank_store = \<lparr>co = [1, 1], hr = [501]\<rparr>, last_report = None\<rparr>"
        "[StateLine True True 501]" 499 501]
  by (simp add: simulate_tick_eq clamped_level_def threshold_events_def MIN_LEVEL_def
      MAX_LEVEL_def level_of_Cons)

section \<open>Properties of the controller\<close>

lemma activation_a_state:
  "fst (activation_a s level) =
     (if \<not> activation_a_active s \<and> 500 \<le> level \<and> level \<le> 520
      then s\<lparr>activation_a_active := True, activation_a_timer := 4\<rparr>
      else if activation_a_active s
      then s\<lparr>activation_a_timer := activation_a_timer s - 1,
             activation_a_active := (0 < activation_a_timer s - 1)\<rparr>
      else s)"
  by (auto simp: activation_a_def Let_def split: prod.splits if_splits)

lemma activation_a_effects:
  "snd (activation_a s level) =
     (if \<not> activation_a_active s \<and> 500 \<le> level \<and> level \<le> 520 then [Log ActivationActivated]
      else if activation_a_active s \<and> activation_a_timer s - 1 \<le> 0 then [Log ActivationDeactivated]
      else [])"
  by (auto simp: activation_a_def Let_def split: prod.splits if_splits)

lemma target_pump_activation [simp]:
  "target_pump (fst (activation_a s level)) l p = target_pump s l p"
  by (simp add: activation_a_state target_pump_def)

lemma valve_override_activation [simp]:
  "valve_override (fst (activation_a s level)) = valve_override s"
  by (simp add: activation_a_state)

lemma poll_tick_good:
  "poll_tick s (Response (level # rs)) (Response (p # v # bs)) =
     (fst (activation_a s level),
      snd (activation_a s level)
        @ (if target_pump s level p \<noteq> p
           then [WriteCoil 0 (target_pump s level p), Log (PumpSetTo (target_pump s level p))]
           else [])
        @ (case valve_override s of
             Some b \<Rightarrow> if b \<noteq> v then [WriteCoil 1 b, Log (ValveSetTo b)] else []
           | None \<Rightarrow> [])
        @ [Log (StateLog level (target_pump s level p) v)],
      Continue)"
  by (simp add: poll_tick_def py_index_def Let_def case_prod_beta)

lemma coil_writes_append [simp]: "coil_writes (xs @ ys) = coil_writes xs @ coil_writes ys"
  by (induction xs rule: coil_writes.induct) simp_all

lemma coil_writes_activation [simp]: "coil_writes (snd (activation_a s level)) = []"
  by (simp add: activation_a_effects)


lemma handle_key_latch:
  "activation_a_active (fst (handle_key s ch pr)) = activation_a_active s
   \<and> activation_a_timer (fst (handle_key s ch pr)) = activation_a_timer s"
  by (simp add: handle_key_def Let_def split: probe.split)

lemma handle_key_flags:
  "ch \<noteq> CHR ''q'' \<Longrightarrow> ch \<noteq> CHR ''t'' \<Longrightarrow>
     exit_flag (fst (handle_key s ch pr)) = exit_flag s
     \<and> skip_next_poll (fst (handle_key s ch pr)) = skip_next_poll s"
  by (simp add: handle_key_def Let_def)

lemma loop_iteration_polls:
  assumes "\<not> skip_next_poll s" and "polls inp" and "in_rr inp = Response (l # rs)"
  shows "\<exists>s' es. loop_iteration s inp = (s', es, Continue)
          \<and> activation_a_active s' =
              (if \<not> activation_a_active s \<and> 500 \<le> l \<and> l \<le> 520 then True
               else activation_a_active s \<and> 0 < activation_a_timer s - 1)
          \<and> activation_a_timer s' =
              (if \<not> activation_a_active s \<and> 500 \<le> l \<and> l \<le> 520 then 4
               else if activation_a_active s then activation_a_timer s - 1
               else activation_a_timer s)
          \<and> exit_flag s' = exit_flag s \<and> \<not> skip_next_poll s'"
proof -
  obtain s1 e1 where k: "(case in_key inp of None \<Rightarrow> (s, [])
                          | Some ch \<Rightarrow> handle_key s (lower ch) (in_probe inp)) = (s1, e1)"
    by (cases "case in_key inp of None \<Rightarrow> (s, [])
                | Some ch \<Rightarrow> handle_key s (lower ch) (in_probe inp)") blast
  from assms(2) obtain p v bs where rc: "in_rc inp = Response (p # v # bs)"
    by (auto simp: polls_def split: response.splits list.splits)
  have s1: "activation_a_active s1 = activation_a_active s
            \<and> activation_a_timer s1 = activation_a_timer s
            \<and> exit_flag s1 = exit_flag s \<and> skip_next_poll s1 = skip_next_poll s"
  proof (cases "in_key inp")
    case None
    with k show ?thesis by simp
  next
    case (Some ch)
    with assms(2) have "lower ch \<noteq> CHR ''q''" and "lower ch \<noteq> CHR ''t''"
      by (simp_all add: polls_def)
    from handle_key_flags [OF this, of s "in_probe inp"]
      handle_key_latch [of s "lower ch" "in_probe inp"] k Some
    show ?thesis by simp
  qed
  have "loop_iteration s inp =
          (fst (activation_a s1 l),
           e1 @ fst (snd (poll_tick s1 (in_rr inp) (in_rc inp))), Continue)"
    using k s1 assms(1)
    by (simp add: loop_iteration_def assms(3) rc poll_tick_good)
  then show ?thesis
    using s1 assms(1) by (simp add: activation_a_state)
qed

lemma run_loop_Continue:
  "\<not> exit_flag s \<Longrightarrow> loop_iteration s inp = (s', es, Continue) \<Longrightarrow>
     fst (run_loop s (inp # inps)) = fst (run_loop s' inps)"
  by (simp split: prod.splits)

lemma polls_level:
  assumes "polls inp" obtains l rs where "in_rr inp = Response (l # rs)"
  using assms by (auto simp: polls_def split: response.splits list.splits)

lemma run_loop_counting:
  assumes "\<not> exit_flag s" "\<not> skip_next_poll s" "\<forall>i\<in>set inps. polls i"
    "activation_a_active s" "int (length inps) < activation_a_timer s"
  shows "activation_a_active (fst (run_loop s inps))
         \<and> activation_a_timer (fst (run_loop s inps)) = activation_a_timer s - int (length inps)"
  using assms
proof (induction inps arbitrary: s)
  case Nil
  then show ?case by simp
next
  case (Cons inp inps)
  from Cons.prems(3) have "polls inp" by simp
  then obtain l rs where rr: "in_rr inp = Response (l # rs)" by (rule polls_level)
  from loop_iteration_polls [OF Cons.prems(2) \<open>polls inp\<close> rr] obtain s' es
    where it: "loop_iteration s inp = (s', es, Continue)"
      and a: "activation_a_active s' =
              (if \<not> activation_a_active s \<and> 500 \<le> l \<and> l \<le> 520 then True
               else activation_a_active s \<and> 0 < activation_a_timer s - 1)"
      and t: "activation_a_timer s' =
              (if \<not> activation_a_active s \<and> 500 \<le> l \<and> l \<le> 520 then 4
               else if activation_a_active s then activation_a_timer s - 1
               else activation_a_timer s)"
      and f: "exit_flag s' = exit_flag s" "\<not> skip_next_poll s'" by blast
  have "activation_a_active (fst (run_loop s' inps))
         \<and> activation_a_timer (fst (run_loop s' inps)) = activation_a_timer s' - int (length inps)"
    using Cons.prems a t f by (intro Cons.IH) auto
  with run_loop_Continue [OF Cons.prems(1) it, of inps] t Cons.prems(4)
  show ?case by simp
qed

lemma run_loop_expiry:
  assumes "\<not> exit_flag s" "\<not> skip_next_poll s" "\<forall>i\<in>set inps. polls i"
    "activation_a_active s" "int (length inps) = activation_a_timer s" "inps \<noteq> []"
  shows "\<not> activation_a_active (fst (run_loop s inps))
         \<and> activation_a_timer (fst (run_loop s inps)) = 0"
  using assms
proof (induction inps arbitrary: s)
  case Nil
  then show ?case by simp
next
  case (Cons inp inps)
  from Cons.prems(3) have "polls inp" by simp
  then obtain l rs where rr: "in_rr inp = Response (l # rs)" by (rule polls_level)
  from loop_iteration_polls [OF Cons.prems(2) \<open>polls inp\<close> rr] obtain s' es
    where it: "loop_iteration s inp = (s', es, Continue)"
      and a: "activation_a_active s' =
              (if \<not> activation_a_active s \<and> 500 \<le> l \<and> l \<le> 520 then True
               else activation_a_active s \<and> 0 < activation_a_timer s - 1)"
      and t: "activation_a_timer s' =
              (if \<not> activation_a_active s \<and> 500 \<le> l \<and> l \<le> 520 then 4
               else if activation_a_active s then activation_a_timer s - 1
               else activation_a_timer s)"
      and f: "exit_flag s' = exit_flag s" "\<not> skip_next_poll s'" by blast
  show ?case
  proof (cases "inps = []")
    case True
    with Cons.prems a t run_loop_Continue [OF Cons.prems(1) it, of inps]
    show ?thesis by simp
  next
    case False
    then have "1 \<le> int (length inps)" by (cases inps) simp_all
    then have "\<not> activation_a_active (fst (run_loop s' inps))
         \<and> activation_a_timer (fst (run_loop s' inps)) = 0"
      using Cons.prems a t f False by (intro Cons.IH) auto
    with run_loop_Continue [OF Cons.prems(1) it, of inps] show ?thesis by simp
  qed
qed

text \<open>
  C2, as the code has it. The loop is running and its pass polls level \<open>level\<close>. If the
  latch is inactive and \<open>500 \<le> level \<le> 520\<close>, the pass activates the latch, sets the
  timer to 5 and decrements it in the same pass, so the pass ends with the latch active
  and the timer at 4; whatever the levels read afterwards, the latch is still active
  after fewer than 4 further polls and inactive after the 4th, which is the 5th poll
  counting the activating one. If the latch is already active, the level read has no
  effect on it: the timer goes down by one and the latch stays active exactly when the
  timer is still positive.
\<close>

theorem C2_activation_window:
  assumes "\<not> exit_flag s" and "\<not> skip_next_poll s" and "polls inp"
    and "\<forall>i\<in>set inps. polls i" and "in_rr inp = Response (level # rs)"
  shows "(\<not> activation_a_active s \<and> 500 \<le> level \<and> level \<le> 520 \<longrightarrow>
            activation_a_active (fst (run_loop s [inp]))
            \<and> activation_a_timer (fst (run_loop s [inp])) = 4
            \<and> (length inps < 4 \<longrightarrow>
                 activation_a_active (fst (run_loop s (inp # inps)))
                 \<and> activation_a_timer (fst (run_loop s (inp # inps))) = 4 - int (length inps))
            \<and> (length inps = 4 \<longrightarrow>
                 \<not> activation_a_active (fst (run_loop s (inp # inps)))))
       \<and> (activation_a_active s \<longrightarrow>
            activation_a_timer (fst (run_loop s [inp])) = activation_a_timer s - 1
            \<and> activation_a_active (fst (run_loop s [inp])) = (0 < activation_a_timer s - 1))"
proof -
  from loop_iteration_polls [OF assms(2) assms(3) assms(5)] obtain s' es
    where it: "loop_iteration s inp = (s', es, Continue)"
      and a: "activation_a_active s' =
              (if \<not> activation_a_active s \<and> 500 \<le> level \<and> level \<le> 520 then True
               else activation_a_active s \<and> 0 < activation_a_timer s - 1)"
      and t: "activation_a_timer s' =
              (if \<not> activation_a_active s \<and> 500 \<le> level \<and> level \<le> 520 then 4
               else if activation_a_active s then activation_a_timer s - 1
               else activation_a_timer s)"
      and f: "\<not> exit_flag s'" "\<not> skip_next_poll s'" using assms(1) by auto
  have run: "fst (run_loop s (inp # xs)) = fst (run_loop s' xs)" for xs
    by (rule run_loop_Continue [OF assms(1) it])
  have one: "fst (run_loop s [inp]) = s'" using run [of "[]"] by simp
  have second: "activation_a_active s \<longrightarrow>
            activation_a_timer (fst (run_loop s [inp])) = activation_a_timer s - 1
            \<and> activation_a_active (fst (run_loop s [inp])) = (0 < activation_a_timer s - 1)"
    unfolding one using a t by simp
  have first: "activation_a_active (fst (run_loop s [inp]))
            \<and> activation_a_timer (fst (run_loop s [inp])) = 4
            \<and> (length inps < 4 \<longrightarrow>
                 activation_a_active (fst (run_loop s (inp # inps)))
                 \<and> activation_a_timer (fst (run_loop s (inp # inps))) = 4 - int (length inps))
            \<and> (length inps = 4 \<longrightarrow>
                 \<not> activation_a_active (fst (run_loop s (inp # inps))))"
    if w: "\<not> activation_a_active s \<and> 500 \<le> level \<and> level \<le> 520"
  proof -
    from w a t have s': "activation_a_active s'" "activation_a_timer s' = 4" by simp_all
    have less: "activation_a_active (fst (run_loop s' inps))
         \<and> activation_a_timer (fst (run_loop s' inps)) = 4 - int (length inps)"
      if "length inps < 4"
      using run_loop_counting [OF f assms(4) s'(1)] that s'(2) by simp
    have eq: "\<not> activation_a_active (fst (run_loop s' inps))" if "length inps = 4"
    proof -
      from that have "inps \<noteq> []" and "int (length inps) = activation_a_timer s'"
        using s'(2) by auto
      from run_loop_expiry [OF f assms(4) s'(1) this(2) this(1)] show ?thesis by simp
    qed
    from s' less eq show ?thesis unfolding one run by simp
  qed
  from first second show ?thesis by blast
qed


text \<open>Activation at level 510 from the initial state, then four polls at level 900.\<close>

theorem C2_activation_window_witness:
  "activation_a_timer (fst (run_loop control_init [quiet_poll 510 False False])) = 4
   \<and> \<not> activation_a_active
        (fst (run_loop control_init
               (quiet_poll 510 False False # replicate 4 (quiet_poll 900 True False))))"
  using C2_activation_window
    [of control_init "quiet_poll 510 False False" "replicate 4 (quiet_poll 900 True False)"
        510 "[]"]
  by (simp add: control_init_def quiet_poll_def polls_def)

text \<open>
  The count of C2 as stated fails. With level 510 at every poll from the initial state, the
  first poll ends with the timer at 4, not 5; the latch is active after that poll and 3
  more, inactive after 4 more, where five subsequent polls would keep it active, and
  active again after 5 more, the window re-arming it.
\<close>

theorem C2_deactivated_by_fourth_poll:
  "activation_a_timer (fst (run_loop control_init [quiet_poll 510 False False])) = 4
   \<and> activation_a_active
       (fst (run_loop control_init (replicate 4 (quiet_poll 510 False False))))
   \<and> \<not> activation_a_active
       (fst (run_loop control_init (replicate 5 (quiet_poll 510 False False))))
   \<and> activation_a_active
       (fst (run_loop control_init (replicate 6 (quiet_poll 510 False False))))"
  by code_simp

text \<open>
  C4. In a poll that reads the level and the two coil states, the target of the pump is the
  override if one is set; otherwise, under automatic control, ON below level 300, OFF above
  700 and the state read in between; otherwise the state read. Coil 0 is written once,
  with the target, if the target differs from the state read, and not at all if it does
  not. The state line logged last carries the target.
\<close>

theorem C4_pump_decision:
  assumes "poll_tick s (Response (level # rs)) (Response (pump_state # valve_state # bs))
             = (s', es, oc)"
    and "target = (case pump_override s of
                     Some b \<Rightarrow> b
                   | None \<Rightarrow>
                       if auto_control s
                       then (if level < 300 then True
                             else if 700 < level then False else pump_state)
                       else pump_state)"
  shows "target_pump s level pump_state = target
       \<and> filter (\<lambda>(a, v). a = 0) (coil_writes es)
           = (if target \<noteq> pump_state then [(0, target)] else [])
       \<and> last es = Log (StateLog level target valve_state)"
proof -
  have tp: "target_pump s level pump_state = target"
    by (simp add: target_pump_def assms(2))
  from assms(1) [unfolded poll_tick_good tp] have es: "es = snd (activation_a s level)
        @ (if target \<noteq> pump_state then [WriteCoil 0 target, Log (PumpSetTo target)] else [])
        @ (case valve_override s of
             Some b \<Rightarrow> if b \<noteq> valve_state then [WriteCoil 1 b, Log (ValveSetTo b)] else []
           | None \<Rightarrow> [])
        @ [Log (StateLog level target valve_state)]"
    by blast
  have "filter (\<lambda>(a, v). a = 0) (coil_writes es)
           = (if target \<noteq> pump_state then [(0, target)] else [])"
    by (simp add: es split: option.split)
  moreover have "last es = Log (StateLog level target valve_state)"
    by (simp add: es)
  ultimately show ?thesis using tp by simp
qed

text \<open>Level 250 with the pump off writes coil 0; level 450 with the pump on writes nothing.\<close>

theorem C4_pump_decision_witness:
  "filter (\<lambda>(a, v). a = 0)
     (coil_writes (fst (snd (poll_tick control_init (Response [250]) (Response [False, False])))))
     = [(0, True)]
   \<and> filter (\<lambda>(a, v). a = 0)
     (coil_writes (fst (snd (poll_tick control_init (Response [450]) (Response [True, False])))))
     = []"
  using C4_pump_decision [of control_init 250 "[]" False False "[]"
      "fst (poll_tick control_init (Response [250]) (Response [False, False]))"
      "fst (snd (poll_tick control_init (Response [250]) (Response [False, False])))"
      "snd (snd (poll_tick control_init (Response [250]) (Response [False, False])))" True]
    C4_pump_decision [of control_init 450 "[]" True False "[]"
      "fst (poll_tick control_init (Response [450]) (Response [True, False]))"
      "fst (snd (poll_tick control_init (Response [450]) (Response [True, False])))"
      "snd (snd (poll_tick control_init (Response [450]) (Response [True, False])))" True]
  by (simp add: control_init_def)


lemma poll_tick_valve_writes:
  "filter (\<lambda>(a, v). a = 1)
     (coil_writes (fst (snd (poll_tick s (Response (level # rs)) (Response (p # v # bs))))))
   = (case valve_override s of Some b \<Rightarrow> if b \<noteq> v then [(1, b)] else [] | None \<Rightarrow> [])"
  by (simp add: poll_tick_good split: option.split)

text \<open>
  C5. In a poll that reads the level and the two coil states, coil 1 is written once, with
  the valve override, if the override is set and differs from the valve state read, and
  not at all otherwise. The writes to coil 1 are the same whatever \<open>auto_control\<close>,
  the pump override, the latch, the level and the pump state are.
\<close>

theorem C5_valve_decision:
  assumes "poll_tick s (Response (level # rs)) (Response (pump_state # valve_state # bs))
             = (s', es, oc)"
  shows "filter (\<lambda>(a, v). a = 1) (coil_writes es)
           = (case valve_override s of
                Some v \<Rightarrow> if v \<noteq> valve_state then [(1, v)] else []
              | None \<Rightarrow> [])
       \<and> filter (\<lambda>(a, v). a = 1)
           (coil_writes (fst (snd
              (poll_tick (s\<lparr>auto_control := ac, pump_override := po,
                             activation_a_active := act, activation_a_timer := tm\<rparr>)
                 (Response (level' # rs')) (Response (pump_state' # valve_state # bs'))))))
           = filter (\<lambda>(a, v). a = 1) (coil_writes es)"
proof -
  from assms have "es = fst (snd (poll_tick s (Response (level # rs))
                                    (Response (pump_state # valve_state # bs))))"
    by simp
  then show ?thesis by (simp only: poll_tick_valve_writes) simp
qed

text \<open>An override to open the valve, read closed, writes coil 1.\<close>

theorem C5_valve_decision_witness:
  "filter (\<lambda>(a, v). a = 1)
     (coil_writes (fst (snd (poll_tick (control_init\<lparr>valve_override := Some True\<rparr>)
        (Response [250]) (Response [False, False]))))) = [(1, True)]"
  using C5_valve_decision [of "control_init\<lparr>valve_override := Some True\<rparr>" 250 "[]" False False "[]"
      "fst (poll_tick (control_init\<lparr>valve_override := Some True\<rparr>) (Response [250]) (Response [False, False]))"
      "fst (snd (poll_tick (control_init\<lparr>valve_override := Some True\<rparr>) (Response [250]) (Response [False, False])))"
      "snd (snd (poll_tick (control_init\<lparr>valve_override := Some True\<rparr>) (Response [250]) (Response [False, False])))"]
  by (simp add: control_init_def)

lemma poll_tick_read_error:
  "rr = NoResponse \<or> rr = ErrorResponse \<or> rc = NoResponse \<or> rc = ErrorResponse \<Longrightarrow>
     poll_tick s rr rc = (s, [Log ReadError], Break)"
  by (auto simp: poll_tick_def split: response.splits)

lemma poll_tick_short_bits:
  "length bits < 2 \<Longrightarrow>
     poll_tick s (Response (level # rs)) (Response bits) = (s, [Log InvalidCoilResponse], Break)"
  by (cases bits; cases "tl bits") (auto simp: poll_tick_def py_index_def)

lemma poll_tick_no_registers:
  "poll_tick s (Response []) (Response bits) = (s, [], Raised IndexError)"
  by (simp add: poll_tick_def py_index_def)

lemma poll_tick_failure:
  assumes "rr = NoResponse \<or> rr = ErrorResponse \<or> rc = NoResponse \<or> rc = ErrorResponse
           \<or> (\<exists>regs bits. rr = Response regs \<and> rc = Response bits \<and> length bits < 2)"
  shows "\<exists>es oc. poll_tick s rr rc = (s, es, oc) \<and> coil_writes es = [] \<and> oc \<noteq> Continue
           \<and> (rr \<noteq> Response [] \<longrightarrow> oc = Break)"
proof (cases "rr = NoResponse \<or> rr = ErrorResponse \<or> rc = NoResponse \<or> rc = ErrorResponse")
  case True
  from poll_tick_read_error [OF this] show ?thesis by simp
next
  case False
  with assms obtain regs bits where r: "rr = Response regs" "rc = Response bits" "length bits < 2"
    by blast
  show ?thesis
  proof (cases regs)
    case Nil
    with r show ?thesis by (simp add: poll_tick_no_registers)
  next
    case (Cons l rs)
    with r show ?thesis by (simp add: poll_tick_short_bits)
  qed
qed

text \<open>
  C7. When a read reply is missing or an error reply, or the coil reply has fewer than two
  bits, the poll leaves the control state as it is, writes no coil and does not go on;
  it ends by \<open>break\<close>, unless the register reply carries no register at all, in which
  case the uncaught \<open>IndexError\<close> ends it. A running loop whose pass has no key pressed
  stops in that pass, whatever inputs would follow.
\<close>

theorem C7_read_failure_stops_loop:
  assumes "rr = NoResponse \<or> rr = ErrorResponse \<or> rc = NoResponse \<or> rc = ErrorResponse
           \<or> (\<exists>regs bits. rr = Response regs \<and> rc = Response bits \<and> length bits < 2)"
  shows "(\<exists>es oc. poll_tick s rr rc = (s, es, oc) \<and> coil_writes es = [] \<and> oc \<noteq> Continue
            \<and> (rr \<noteq> Response [] \<longrightarrow> oc = Break))
       \<and> (\<not> exit_flag s \<and> \<not> skip_next_poll s \<longrightarrow>
            (\<exists>es st. run_loop s (\<lparr>in_key = None, in_probe = pr, in_rr = rr, in_rc = rc\<rparr> # inps)
                        = (s, es, st)
               \<and> coil_writes es = [] \<and> st \<noteq> Running \<and> st \<noteq> Finished
               \<and> (rr \<noteq> Response [] \<longrightarrow> st = Broken)))"
proof -
  from poll_tick_failure [OF assms, of s] obtain es oc
    where p: "poll_tick s rr rc = (s, es, oc)" and w: "coil_writes es = []"
      and oc: "oc \<noteq> Continue" "rr \<noteq> Response [] \<longrightarrow> oc = Break" by blast
  have "\<exists>es st. run_loop s (\<lparr>in_key = None, in_probe = pr, in_rr = rr, in_rc = rc\<rparr> # inps)
                        = (s, es, st)
               \<and> coil_writes es = [] \<and> st \<noteq> Running \<and> st \<noteq> Finished
               \<and> (rr \<noteq> Response [] \<longrightarrow> st = Broken)"
    if "\<not> exit_flag s \<and> \<not> skip_next_poll s"
    using that p w oc by (cases oc) (simp_all add: loop_iteration_def)
  with p w oc show ?thesis by blast
qed

text \<open>An error reply to the register read, and a coil reply of one bit.\<close>

theorem C7_read_failure_stops_loop_witness:
  "run_loop control_init
     [\<lparr>in_key = None, in_probe = NoSocket, in_rr = ErrorResponse, in_rc = Response [True, False]\<rparr>,
      quiet_poll 250 False False]
   = (control_init, [Log ReadError], Broken)
   \<and> poll_tick control_init (Response [250]) (Response [True])
       = (control_init, [Log InvalidCoilResponse], Break)"
  using C7_read_failure_stops_loop [of ErrorResponse "Response [True, False]" control_init NoSocket
      "[quiet_poll 250 False False]"]
    C7_read_failure_stops_loop [of "Response [250]" "Response [True]" control_init NoSocket "[]"]
  by (simp add: control_init_def loop_iteration_def poll_tick_def py_index_def)

text \<open>
  C9. Two control states that agree on \<open>auto_control\<close> and the two overrides give, on
  the same read replies, the same pump target, the same coil writes, the same end of the
  pass and the same effects apart from the two log lines of the latch, whatever their
  latch flags and timers are.
\<close>

theorem C9_latch_inert:
  assumes "auto_control s2 = auto_control s1" and "pump_override s2 = pump_override s1"
    and "valve_override s2 = valve_override s1"
  shows "target_pump s2 level pump_state = target_pump s1 level pump_state
       \<and> coil_writes (fst (snd (poll_tick s2 rr rc))) = coil_writes (fst (snd (poll_tick s1 rr rc)))
       \<and> snd (snd (poll_tick s2 rr rc)) = snd (snd (poll_tick s1 rr rc))
       \<and> filter (\<lambda>e. e \<noteq> Log ActivationActivated \<and> e \<noteq> Log ActivationDeactivated)
           (fst (snd (poll_tick s2 rr rc)))
         = filter (\<lambda>e. e \<noteq> Log ActivationActivated \<and> e \<noteq> Log ActivationDeactivated)
           (fst (snd (poll_tick s1 rr rc)))"
proof -
  have tp: "target_pump s2 l p = target_pump s1 l p" for l p
    using assms by (simp add: target_pump_def)
  have good: "?thesis" if "rr = Response (l # rs)" "rc = Response (p # v # bs)" for l rs p v bs
    using that assms tp by (simp add: poll_tick_good activation_a_effects)
  show ?thesis
  proof (cases "rr = NoResponse \<or> rr = ErrorResponse \<or> rc = NoResponse \<or> rc = ErrorResponse")
    case True
    then show ?thesis using tp by (simp add: poll_tick_read_error)
  next
    case False
    then obtain regs bits where r: "rr = Response regs" "rc = Response bits"
      by (cases rr; cases rc) auto
    show ?thesis
    proof (cases regs)
      case Nil
      with r tp show ?thesis by (simp add: poll_tick_no_registers)
    next
      case (Cons l rs)
      show ?thesis
      proof (cases "length bits < 2")
        case True
        with r Cons tp show ?thesis by (simp add: poll_tick_short_bits)
      next
        case False
        then obtain p v bs where "bits = p # v # bs"
          by (cases bits; cases "tl bits") auto
        with r Cons good show ?thesis by blast
      qed
    qed
  qed
qed

text \<open>The initial state against the same state with the latch active and the timer at 3.\<close>

theorem C9_latch_inert_witness:
  "coil_writes (fst (snd (poll_tick (control_init\<lparr>activation_a_active := True, activation_a_timer := 3\<rparr>)
      (Response [250]) (Response [False, False]))))
   = coil_writes (fst (snd (poll_tick control_init (Response [250]) (Response [False, False]))))"
  using C9_latch_inert [of "control_init\<lparr>activation_a_active := True, activation_a_timer := 3\<rparr>"
      control_init 250 False "Response [250]" "Response [False, False]"]
  by simp


lemma activation_a_latch_inv: "latch_inv s \<Longrightarrow> latch_inv (fst (activation_a s l))"
  by (auto simp: latch_inv_def activation_a_state)

lemma poll_tick_state:
  "fst (poll_tick s rr rc) = s \<or> (\<exists>l. fst (poll_tick s rr rc) = fst (activation_a s l))"
  by (auto simp: poll_tick_def py_index_def Let_def case_prod_beta
      split: response.split sum.split)

lemma poll_tick_latch_inv: "latch_inv s \<Longrightarrow> latch_inv (fst (poll_tick s rr rc))"
  using poll_tick_state [of s rr rc] activation_a_latch_inv [of s] by auto

lemma handle_key_latch_inv: "latch_inv s \<Longrightarrow> latch_inv (fst (handle_key s ch pr))"
  by (simp add: latch_inv_def handle_key_latch)

lemma loop_iteration_latch_inv:
  assumes "latch_inv s" shows "latch_inv (fst (loop_iteration s inp))"
proof -
  let ?k = "case in_key inp of None \<Rightarrow> (s, [])
            | Some ch \<Rightarrow> handle_key s (lower ch) (in_probe inp)"
  have k: "latch_inv (fst ?k)"
    using assms by (cases "in_key inp") (simp_all add: handle_key_latch_inv)
  show ?thesis
  proof (cases "skip_next_poll (fst ?k)")
    case True
    with k show ?thesis
      by (simp add: loop_iteration_def case_prod_beta latch_inv_def)
  next
    case False
    with poll_tick_latch_inv [OF k, of "in_rr inp" "in_rc inp"] show ?thesis
      by (simp add: loop_iteration_def case_prod_beta)
  qed
qed

lemma run_loop_latch_inv: "latch_inv s \<Longrightarrow> latch_inv (fst (run_loop s inps))"
proof (induction inps arbitrary: s)
  case Nil
  then show ?case by simp
next
  case (Cons inp inps)
  obtain s1 e1 oc where it: "loop_iteration s inp = (s1, e1, oc)"
    by (cases "loop_iteration s inp") auto
  with loop_iteration_latch_inv [OF Cons.prems, of inp] have s1: "latch_inv s1" by simp
  show ?case
  proof (cases "exit_flag s")
    case True
    with Cons.prems show ?thesis by simp
  next
    case False
    show ?thesis
    proof (cases oc)
      case Continue
      with False it Cons.IH [OF s1] show ?thesis by (simp add: case_prod_beta)
    next
      case Break
      with False it s1 show ?thesis by simp
    next
      case (Raised e)
      with False it s1 show ?thesis by simp
    qed
  qed
qed

lemma latch_inv_init: "latch_inv control_init"
  by (simp add: latch_inv_def control_init_def)

text \<open>
  C6. After any passes of the control loop from the initial state, the timer of the latch
  is positive only if the latch is active, and the latch is active only if the timer is
  positive. A poll that finds the latch active decrements the timer once and leaves the
  latch active exactly when the timer is still positive; a poll that activates the latch
  decrements the timer once from 5; any other poll leaves the latch as it is.
\<close>

theorem C6_timer_positive_only_while_active:
  "(0 < activation_a_timer (fst (run_loop control_init inps))
      \<longrightarrow> activation_a_active (fst (run_loop control_init inps)))
   \<and> (activation_a_active (fst (run_loop control_init inps))
      \<longrightarrow> 0 < activation_a_timer (fst (run_loop control_init inps)))
   \<and> (poll_tick s (Response (level # rs)) (Response (pump_state # valve_state # bs))
         = (s', es, oc) \<longrightarrow>
       (activation_a_active s \<longrightarrow>
          activation_a_timer s' = activation_a_timer s - 1
          \<and> activation_a_active s' = (0 < activation_a_timer s'))
       \<and> (\<not> activation_a_active s \<and> 500 \<le> level \<and> level \<le> 520 \<longrightarrow>
            activation_a_timer s' = 5 - 1 \<and> activation_a_active s')
       \<and> (\<not> activation_a_active s \<and> \<not> (500 \<le> level \<and> level \<le> 520) \<longrightarrow>
            activation_a_timer s' = activation_a_timer s \<and> \<not> activation_a_active s'))"
proof -
  from run_loop_latch_inv [OF latch_inv_init, of inps]
  have "activation_a_active (fst (run_loop control_init inps))
          = (0 < activation_a_timer (fst (run_loop control_init inps)))"
    by (simp add: latch_inv_def)
  moreover have "s' = fst (activation_a s level)"
    if "poll_tick s (Response (level # rs)) (Response (pump_state # valve_state # bs))
         = (s', es, oc)"
    using that by (simp add: poll_tick_good)
  ultimately show ?thesis by (auto simp: activation_a_state)
qed

text \<open>A poll with the latch active and the timer at 1 ends with the timer at 0, inactive.\<close>

theorem C6_timer_positive_only_while_active_witness:
  "activation_a_timer (fst (poll_tick (control_init\<lparr>activation_a_active := True, activation_a_timer := 1\<rparr>)
      (Response [510]) (Response [False, False]))) = 0
   \<and> \<not> activation_a_active (fst (poll_tick (control_init\<lparr>activation_a_active := True, activation_a_timer := 1\<rparr>)
      (Response [510]) (Response [False, False])))"
  using C6_timer_positive_only_while_active
    [of "[]" "control_init\<lparr>activation_a_active := True, activation_a_timer := 1\<rparr>" 510 "[]" False False "[]"
      "fst (poll_tick (control_init\<lparr>activation_a_active := True, activation_a_timer := 1\<rparr>)
      (Response [510]) (Response [False, False]))"
      "fst (snd (poll_tick (control_init\<lparr>activation_a_active := True, activation_a_timer := 1\<rparr>)
      (Response [510]) (Response [False, False])))"
      "snd (snd (poll_tick (control_init\<lparr>activation_a_active := True, activation_a_timer := 1\<rparr>)
      (Response [510]) (Response [False, False])))"]
  by (simp add: control_init_def)

end
